theory Spec2Isabelle
  imports Complex_Main "HOL-Library.AList" "HOL-Library.Sublist"
begin

section \<open>Text primitives of the scraper\<close>

text \<open>
  Python strings are modelled as \<open>string\<close>: a list of 8-bit characters, read as the
  code points 0..255. On that range the regular-expression class \<open>\d\<close> is exactly the
  ten characters 0..9, \<open>str.isspace\<close> holds for the code points 9..13, 28..32, 133
  and 160, and \<open>str.lower\<close> adds 32 to A..Z and to 192..222 except 215.
\<close>

definition is_digit :: "char \<Rightarrow> bool" where
  "is_digit c = (let n = (of_char c :: nat) in 48 \<le> n \<and> n \<le> 57)"

definition is_space :: "char \<Rightarrow> bool" where
  "is_space c = (let n = (of_char c :: nat) in
     (9 \<le> n \<and> n \<le> 13) \<or> (28 \<le> n \<and> n \<le> 32) \<or> n = 133 \<or> n = 160)"

definition lower_char :: "char \<Rightarrow> char" where
  "lower_char c = (let n = (of_char c :: nat) in
     if (65 \<le> n \<and> n \<le> 90) \<or> (192 \<le> n \<and> n \<le> 222 \<and> n \<noteq> 215)
     then char_of (n + 32) else c)"

definition py_lower :: "string \<Rightarrow> string" where
  "py_lower s = map lower_char s"

definition py_strip :: "string \<Rightarrow> string" where
  "py_strip s = rev (dropWhile is_space (rev (dropWhile is_space s)))"

text \<open>\<open>s.startswith(p)\<close>.\<close>

fun startswith :: "string \<Rightarrow> string \<Rightarrow> bool" where
  "startswith s [] = True"
| "startswith [] (p # ps) = False"
| "startswith (c # cs) (p # ps) = (c = p \<and> startswith cs ps)"

text \<open>
  \<open>s.replace(old, new)\<close> for a non-empty \<open>old\<close> (the scraper only replaces the
  constants "Address: ", "Phone: " and ","): occurrences are replaced from the left and
  do not overlap. \<open>skip\<close> counts the characters of a matched occurrence that are still
  to be dropped.
\<close>

fun replace_from :: "nat \<Rightarrow> string \<Rightarrow> string \<Rightarrow> string \<Rightarrow> string" where
  "replace_from skip old new [] = []"
| "replace_from (Suc k) old new (c # cs) = replace_from k old new cs"
| "replace_from 0 old new (c # cs) =
     (if old \<noteq> [] \<and> startswith (c # cs) old
      then new @ replace_from (length old - 1) old new cs
      else c # replace_from 0 old new cs)"

definition py_replace :: "string \<Rightarrow> string \<Rightarrow> string \<Rightarrow> string" where
  "py_replace s old new = replace_from 0 old new s"

section \<open>Derived messaging link\<close>

text \<open>
  \<open>create_whatsapp_link\<close>: \<open>re.sub(r'[^\d+]', '', phone)\<close> deletes every character that
  is neither a digit nor the plus sign.
\<close>

definition clean_phone :: "string \<Rightarrow> string" where
  "clean_phone phone = filter (\<lambda>c. is_digit c \<or> c = CHR ''+'') phone"

definition create_whatsapp_link :: "string \<Rightarrow> string" where
  "create_whatsapp_link phone =
     (if phone = [] then []
      else if clean_phone phone \<noteq> [] then ''https://wa.me/'' @ clean_phone phone
      else [])"

section \<open>Leads and the detail view\<close>

text \<open>
  A lead is a Python dict from field names to text. It is kept as an association list in
  insertion order; \<open>lead_get l k d\<close> is \<open>l.get(k, d)\<close> and \<open>lead_set l k v\<close> is the
  assignment \<open>l[k] = v\<close>.
\<close>

type_synonym lead = "(string \<times> string) list"

definition lead_get :: "lead \<Rightarrow> string \<Rightarrow> string \<Rightarrow> string" where
  "lead_get l k d = (case map_of l k of None \<Rightarrow> d | Some v \<Rightarrow> v)"

definition lead_set :: "lead \<Rightarrow> string \<Rightarrow> string \<Rightarrow> lead" where
  "lead_set l k v = AList.update k v l"

definition lead_name :: "lead \<Rightarrow> string" where
  "lead_name l = lead_get l ''Business Name'' []"

definition empty_lead :: lead where
  "empty_lead =
     [(''Business Name'', []), (''Address'', []), (''Phone'', []), (''WhatsApp Link'', []),
      (''Website'', []), (''Email'', []), (''Google Maps Link'', []), (''Rating'', []),
      (''Reviews'', [])]"

text \<open>
  What the browser shows. An element is read through its text and two of its attributes;
  a page answers \<open>safe_find_element\<close> for a CSS selector with an element or with nothing,
  and may fail to give its URL or its body text (the two bare \<open>try\<close> blocks of
  \<open>extract_business_details\<close>).
\<close>

record element =
  elem_text :: string
  elem_aria_label :: "string option"
  elem_href :: "string option"

record page =
  current_url :: "string option"
  elements :: "(string \<times> element) list"
  body_text :: "string option"

definition safe_find_element :: "page \<Rightarrow> string \<Rightarrow> element option" where
  "safe_find_element pg selector = map_of (elements pg) selector"

text \<open>
  Every field loop of the extractor walks an ordered selector list and stops at the
  first selector whose element passes the field's test.
\<close>

fun first_match :: "(string \<Rightarrow> 'a option) \<Rightarrow> string list \<Rightarrow> 'a option" where
  "first_match f [] = None"
| "first_match f (selector # rest) =
     (case f selector of Some v \<Rightarrow> Some v | None \<Rightarrow> first_match f rest)"

definition name_selectors :: "string list" where
  "name_selectors = [''h1.DUwDvf'', ''h1.fontHeadlineLarge'', ''div.lMbq3e h1'', ''h1'']"

definition address_selectors :: "string list" where
  "address_selectors =
     [''button[data-item-id='address'] div.fontBodyMedium'',
      ''button[data-item-id='address']'',
      ''button[data-tooltip='Copy address'] div.fontBodyMedium'',
      ''div[data-item-id='address']'']"

definition phone_selectors :: "string list" where
  "phone_selectors =
     [''button[data-item-id^='phone:tel'] div.fontBodyMedium'',
      ''button[data-item-id^='phone'] div.fontBodyMedium'',
      ''button[data-tooltip='Copy phone number'] div.fontBodyMedium'',
      ''a[data-item-id^='phone']'']"

definition website_selectors :: "string list" where
  "website_selectors =
     [''a[data-item-id='authority']'', ''a[data-tooltip='Open website']'',
      ''a[aria-label*='website']'']"

definition name_at :: "page \<Rightarrow> string \<Rightarrow> string option" where
  "name_at pg selector =
     (case safe_find_element pg selector of
        None \<Rightarrow> None
      | Some elem \<Rightarrow>
          if py_strip (elem_text elem) \<noteq> [] then Some (py_strip (elem_text elem)) else None)"

text \<open>\<open>elem.text.strip() if elem.text else elem.get_attribute("aria-label")\<close>, kept when truthy.\<close>

definition label_at :: "page \<Rightarrow> string \<Rightarrow> string option" where
  "label_at pg selector =
     (case safe_find_element pg selector of
        None \<Rightarrow> None
      | Some elem \<Rightarrow>
          (let text = (if elem_text elem \<noteq> [] then Some (py_strip (elem_text elem))
                       else elem_aria_label elem)
           in case text of None \<Rightarrow> None | Some t \<Rightarrow> if t \<noteq> [] then Some t else None))"

definition website_at :: "page \<Rightarrow> string \<Rightarrow> string option" where
  "website_at pg selector =
     (case safe_find_element pg selector of
        None \<Rightarrow> None
      | Some elem \<Rightarrow>
          (case elem_href elem of
             None \<Rightarrow> None
           | Some href \<Rightarrow>
               if href \<noteq> [] \<and> \<not> startswith href ''https://www.google.com''
               then Some href else None))"

text \<open>
  \<open>extract_email\<close>: \<open>re.search\<close> of
  \<open>[a-zA-Z0-9._%+-]+@[a-zA-Z0-9.-]+\.[a-zA-Z]{2,}\<close>, the leftmost match of a
  backtracking matcher with greedy repetitions. The local part is the longest run of its
  class and must be followed by the at sign; the domain gives characters back until what
  follows it is a dot and at least two letters.
\<close>

definition is_alpha :: "char \<Rightarrow> bool" where
  "is_alpha c = (let n = (of_char c :: nat) in (65 \<le> n \<and> n \<le> 90) \<or> (97 \<le> n \<and> n \<le> 122))"

definition is_local :: "char \<Rightarrow> bool" where
  "is_local c = (is_alpha c \<or> is_digit c \<or> c \<in> set ''._%+-'')"

definition is_domain :: "char \<Rightarrow> bool" where
  "is_domain c = (is_alpha c \<or> is_digit c \<or> c \<in> set ''.-'')"

fun try_dot :: "nat \<Rightarrow> string \<Rightarrow> string option" where
  "try_dot 0 s = None"
| "try_dot (Suc k) s =
     (let tld = takeWhile is_alpha (drop (Suc (Suc k)) s)
      in if s ! Suc k = CHR ''.'' \<and> 2 \<le> length tld then Some (take (Suc (Suc k)) s @ tld)
         else try_dot k s)"

definition match_domain :: "string \<Rightarrow> string option" where
  "match_domain s = try_dot (length (takeWhile is_domain s) - 1) s"

definition match_email_at :: "string \<Rightarrow> string option" where
  "match_email_at s =
     (let loc = takeWhile is_local s in
      if loc = [] then None
      else case dropWhile is_local s of
             [] \<Rightarrow> None
           | c # rest \<Rightarrow>
               if c = CHR ''@''
               then (case match_domain rest of
                       None \<Rightarrow> None
                     | Some d \<Rightarrow> Some (loc @ CHR ''@'' # d))
               else None)"

fun search_email :: "string \<Rightarrow> string option" where
  "search_email [] = None"
| "search_email (c # cs) =
     (case match_email_at (c # cs) of Some m \<Rightarrow> Some m | None \<Rightarrow> search_email cs)"

definition extract_email :: "string \<Rightarrow> string" where
  "extract_email text =
     (if text = [] then [] else case search_email text of Some m \<Rightarrow> m | None \<Rightarrow> [])"

text \<open>
  \<open>extract_business_details\<close> fills the lead field by field; each definition below is
  one block of the source, taking the lead built so far.
\<close>

definition set_maps_link :: "page \<Rightarrow> lead \<Rightarrow> lead" where
  "set_maps_link pg lead =
     (case current_url pg of
        Some url \<Rightarrow> lead_set lead ''Google Maps Link'' url
      | None \<Rightarrow> lead)"

definition set_name :: "page \<Rightarrow> lead \<Rightarrow> lead" where
  "set_name pg lead =
     (case first_match (name_at pg) name_selectors of
        Some n \<Rightarrow> lead_set lead ''Business Name'' n
      | None \<Rightarrow> lead)"

definition set_address :: "page \<Rightarrow> lead \<Rightarrow> lead" where
  "set_address pg lead =
     (case first_match (label_at pg) address_selectors of
        Some t \<Rightarrow> lead_set lead ''Address'' (py_strip (py_replace t ''Address: '' []))
      | None \<Rightarrow> lead)"

definition set_phone :: "page \<Rightarrow> lead \<Rightarrow> lead" where
  "set_phone pg lead =
     (case first_match (label_at pg) phone_selectors of
        Some t \<Rightarrow>
          (let phone = py_strip (py_replace t ''Phone: '' [])
           in lead_set (lead_set lead ''Phone'' phone)
                ''WhatsApp Link'' (create_whatsapp_link phone))
      | None \<Rightarrow> lead)"

definition set_website :: "page \<Rightarrow> lead \<Rightarrow> lead" where
  "set_website pg lead =
     (case first_match (website_at pg) website_selectors of
        Some href \<Rightarrow> lead_set lead ''Website'' href
      | None \<Rightarrow> lead)"

definition set_email :: "page \<Rightarrow> lead \<Rightarrow> lead" where
  "set_email pg lead =
     (let page_text = (case body_text pg of Some t \<Rightarrow> t | None \<Rightarrow> [])
      in if page_text \<noteq> []
         then (let email = extract_email page_text
               in if email \<noteq> [] then lead_set lead ''Email'' email else lead)
         else lead)"

definition set_rating :: "page \<Rightarrow> lead \<Rightarrow> lead" where
  "set_rating pg lead =
     (case safe_find_element pg ''div.F7nice span[aria-hidden='true']'' of
        Some elem \<Rightarrow>
          if elem_text elem \<noteq> [] then lead_set lead ''Rating'' (py_strip (elem_text elem))
          else lead
      | None \<Rightarrow> lead)"

definition set_reviews :: "page \<Rightarrow> lead \<Rightarrow> lead" where
  "set_reviews pg lead =
     (case safe_find_element pg ''div.F7nice span[aria-label*='review']'' of
        Some elem \<Rightarrow>
          (case elem_aria_label elem of
             Some a \<Rightarrow> if a \<noteq> [] then lead_set lead ''Reviews'' a else lead
           | None \<Rightarrow> lead)
      | None \<Rightarrow> lead)"

definition extract_business_details :: "page \<Rightarrow> lead" where
  "extract_business_details pg =
     set_reviews pg (set_rating pg (set_email pg (set_website pg (set_phone pg
       (set_address pg (set_name pg (set_maps_link pg empty_lead)))))))"

section \<open>Result-list scroller\<close>

text \<open>
  The functions are modelled at their default \<open>progress_callback=None\<close>: progress
  reports are not part of any returned value.

  The result list is re-read from the browser with \<open>safe_find_elements(driver,
  "div.Nv2PK")\<close> every time it is needed. The environment is the sequence of these
  readings: \<open>polls p\<close> is the list found at the \<open>p\<close>-th reading of a run.

  \<open>scroll_loop\<close> is the \<open>while\<close> loop of \<open>scroll_results_panel\<close>; it need not return, so it
  is a partial function, and its value is the number of readings made so far.
\<close>

partial_function (option) scroll_loop ::
  "(nat \<Rightarrow> 'a list) \<Rightarrow> int \<Rightarrow> nat \<Rightarrow> nat \<Rightarrow> nat \<Rightarrow> nat option" where
  "scroll_loop polls max_results p last_count scroll_attempts =
     (if scroll_attempts < 20 then
        (let current_count = length (polls p) in
         if max_results \<le> int current_count then Some (Suc p)
         else if current_count = last_count
         then scroll_loop polls max_results (Suc p) last_count (Suc scroll_attempts)
         else scroll_loop polls max_results (Suc p) current_count 0)
      else Some p)"

declare scroll_loop.simps [code]

text \<open>
  \<open>scroll_results_panel\<close> returns the list read after the loop, together with the number
  of readings made.
\<close>

definition scroll_results_panel :: "(nat \<Rightarrow> 'a list) \<Rightarrow> int \<Rightarrow> ('a list \<times> nat) option" where
  "scroll_results_panel polls max_results =
     (case scroll_loop polls max_results 0 0 0 of
        None \<Rightarrow> None
      | Some p \<Rightarrow> Some (polls p, Suc p))"

section \<open>Search orchestrator\<close>

text \<open>
  A card of the result list, as the loop of \<open>scrape_google_maps\<close> meets it:
  \<^item> \<open>card_raises\<close>: reading the card's link or its label raises (the card went stale);
    the handler of the loop body reloads the listing and goes on with the next index;
  \<^item> \<open>card_link\<close>: the \<open>a.hfpxzc\<close> element, given by its \<open>aria-label\<close> attribute;
  \<^item> \<open>click_raises\<close>: scrolling to the card or clicking it raises;
  \<^item> \<open>detail\<close>: the detail view shown after the click, or nothing when reading it raises.
\<close>

record card =
  card_raises :: bool
  card_link :: "string option option"
  click_raises :: bool
  detail :: "page option"

text \<open>
  The state of a run: the leads so far, the set \<open>processed_names\<close>, and the indices of
  the cards that were clicked, in order.
\<close>

record run_state =
  leads :: "lead list"
  processed_names :: "string set"
  opened :: "nat list"

definition initial_state :: run_state where
  "initial_state = \<lparr>leads = [], processed_names = {}, opened = []\<rparr>"

text \<open>One pass of the loop body for the card at index \<open>idx\<close>.\<close>

definition process_card :: "card \<Rightarrow> nat \<Rightarrow> run_state \<Rightarrow> run_state" where
  "process_card c idx st =
     (if card_raises c then st
      else case card_link c of
        None \<Rightarrow> st
      | Some label \<Rightarrow>
          (let business_name = (case label of Some a \<Rightarrow> a | None \<Rightarrow> []) in
           if business_name \<in> processed_names st then st
           else if click_raises c then st
           else
             (let st = st\<lparr>opened := opened st @ [idx]\<rparr> in
              case detail c of
                None \<Rightarrow> st
              | Some pg \<Rightarrow>
                  (let lead = extract_business_details pg;
                       lead = (if lead_name lead = [] \<and> business_name \<noteq> []
                               then lead_set lead ''Business Name'' business_name else lead)
                   in if lead_name lead \<noteq> []
                      then st\<lparr>processed_names := insert (lead_name lead) (processed_names st),
                              leads := leads st @ [lead]\<rparr>
                      else st))))"

text \<open>
  \<open>for idx in range(total_cards)\<close>: \<open>remaining\<close> counts the indices still to visit, and
  the loop breaks when the list read in this pass is too short for \<open>idx\<close>.
\<close>

fun card_loop :: "(nat \<Rightarrow> card list) \<Rightarrow> nat \<Rightarrow> nat \<Rightarrow> nat \<Rightarrow> run_state \<Rightarrow> run_state" where
  "card_loop polls p idx 0 st = st"
| "card_loop polls p idx (Suc remaining) st =
     (let business_cards = polls p in
      if length business_cards \<le> idx then st
      else card_loop polls (Suc p) (Suc idx) remaining (process_card (business_cards ! idx) idx st))"

text \<open>
  The environment of one run:
  \<^item> \<open>browser_error\<close>: an exception raised by the browser session before the loop over the
    cards (creating the driver, loading the page, looking up the container, scrolling);
    \<open>scrape_google_maps\<close> raises it again after quitting the driver;
  \<^item> \<open>container_found\<close>: whether one of the container selectors matched;
  \<^item> \<open>readings\<close>: the readings of the result list.
  A run that never returns (the scroller may loop) has the value \<open>None\<close>.
\<close>

type_synonym exn = string

record run_env =
  browser_error :: "exn option"
  container_found :: bool
  readings :: "nat \<Rightarrow> card list"

definition run_cards :: "run_env \<Rightarrow> int \<Rightarrow> (exn + run_state) option" where
  "run_cards env max_results =
     (case browser_error env of
        Some e \<Rightarrow> Some (Inl e)
      | None \<Rightarrow>
          if \<not> container_found env then Some (Inr initial_state)
          else case scroll_results_panel (readings env) max_results of
            None \<Rightarrow> None
          | Some (loaded, p) \<Rightarrow>
              (let business_cards = readings env p;
                   total_cards = min (int (length business_cards)) max_results
               in if total_cards = 0 then Some (Inr initial_state)
                  else Some (Inr (card_loop (readings env) (Suc p) 0 (nat total_cards) initial_state))))"

definition scrape_google_maps :: "run_env \<Rightarrow> int \<Rightarrow> (exn + lead list) option" where
  "scrape_google_maps env max_results =
     (case run_cards env max_results of
        None \<Rightarrow> None
      | Some (Inl e) \<Rightarrow> Some (Inl e)
      | Some (Inr st) \<Rightarrow> Some (Inr (leads st)))"

section \<open>Bulk runner\<close>

text \<open>
  A search is a dict with the keys \<open>keyword\<close>, \<open>city\<close> and \<open>country\<close>, read with
  \<open>search.get(key, '')\<close>. Each search comes with the environment its run meets.
\<close>

definition search_query :: "(string \<times> string) list \<Rightarrow> string" where
  "search_query search =
     lead_get search ''keyword'' [] @ '' in '' @ lead_get search ''city'' [] @ '', ''
       @ lead_get search ''country'' []"

definition tag_leads :: "(string \<times> string) list \<Rightarrow> lead list \<Rightarrow> lead list" where
  "tag_leads search ls = map (\<lambda>lead. lead_set lead ''Search Query'' (search_query search)) ls"

fun bulk_loop ::
  "((string \<times> string) list \<times> run_env) list \<Rightarrow> int \<Rightarrow> lead list \<Rightarrow> (exn + lead list) option" where
  "bulk_loop [] max_results all_leads = Some (Inr all_leads)"
| "bulk_loop ((search, env) # rest) max_results all_leads =
     (case scrape_google_maps env max_results of
        None \<Rightarrow> None
      | Some (Inl e) \<Rightarrow> bulk_loop rest max_results all_leads
      | Some (Inr ls) \<Rightarrow> bulk_loop rest max_results (all_leads @ tag_leads search ls))"

definition scrape_bulk_searches ::
  "((string \<times> string) list \<times> run_env) list \<Rightarrow> int \<Rightarrow> (exn + lead list) option" where
  "scrape_bulk_searches searches max_results = bulk_loop searches max_results []"

section \<open>Post-processing\<close>

definition dedup_key :: "lead \<Rightarrow> string \<times> string" where
  "dedup_key l = (py_strip (py_lower (lead_get l ''Business Name'' [])),
                  py_strip (py_lower (lead_get l ''Address'' [])))"

fun dedup_loop :: "(string \<times> string) set \<Rightarrow> lead list \<Rightarrow> lead list \<Rightarrow> lead list" where
  "dedup_loop seen unique_leads [] = unique_leads"
| "dedup_loop seen unique_leads (l # ls) =
     (let key = dedup_key l in
      if fst key \<noteq> [] \<and> key \<notin> seen
      then dedup_loop (insert key seen) (unique_leads @ [l]) ls
      else dedup_loop seen unique_leads ls)"

definition deduplicate_leads :: "lead list \<Rightarrow> lead list" where
  "deduplicate_leads ls = dedup_loop {} [] ls"

text \<open>
  The position \<open>i\<close> of a list of leads holds the first lead of its key: the name part of
  the key is not empty and no earlier position has the same key.
\<close>

definition first_of_key :: "lead list \<Rightarrow> nat \<Rightarrow> bool" where
  "first_of_key L i =
     (fst (dedup_key (L ! i)) \<noteq> [] \<and> (\<forall>j<i. dedup_key (L ! j) \<noteq> dedup_key (L ! i)))"

text \<open>
  The lead table of \<open>filter_leads\<close> is a pandas DataFrame of text columns: the column
  names and the rows, each row a dict; a cell that a row does not have is pandas' missing
  value. \<open>df.empty\<close> holds when there is no row or no column, and selecting a column that
  the table does not have raises \<open>KeyError\<close>.
\<close>

record dataframe =
  df_columns :: "string list"
  df_rows :: "(string \<times> string) list list"

datatype py_error = KeyError string

definition df_empty :: "dataframe \<Rightarrow> bool" where
  "df_empty df = (df_columns df = [] \<or> df_rows df = [])"

text \<open>
  \<open>df[df[col].str.len() > 0]\<close> when \<open>present\<close>, \<open>df[df[col].str.len() == 0]\<close> otherwise;
  the length of a missing cell is missing and compares false both ways.
\<close>

definition str_len_filter :: "dataframe \<Rightarrow> string \<Rightarrow> bool \<Rightarrow> py_error + dataframe" where
  "str_len_filter df col present =
     (if col \<notin> set (df_columns df) then Inl (KeyError col)
      else Inr (df\<lparr>df_rows :=
             filter (\<lambda>row. case map_of row col of
                               None \<Rightarrow> False
                             | Some v \<Rightarrow> if present then 0 < length v else length v = 0)
               (df_rows df)\<rparr>))"

text \<open>
  A Python float is a rational, an infinity or not-a-number; \<open>float_ge x y\<close> is \<open>x >= y\<close>.
  Python's conversion \<open>float(s)\<close> belongs to the language, not to this program: it is the
  parameter \<open>py_float\<close>, with \<open>None\<close> where \<open>float\<close> raises.
\<close>

datatype pyfloat = Finite rat | PosInf | NegInf | NaN

fun float_ge :: "pyfloat \<Rightarrow> pyfloat \<Rightarrow> bool" where
  "float_ge NaN y = False"
| "float_ge x NaN = False"
| "float_ge PosInf y = True"
| "float_ge x NegInf = True"
| "float_ge (Finite a) (Finite b) = (b \<le> a)"
| "float_ge (Finite a) PosInf = False"
| "float_ge NegInf y = False"

definition float_positive :: "pyfloat \<Rightarrow> bool" where
  "float_positive x = (case x of Finite a \<Rightarrow> 0 < a | PosInf \<Rightarrow> True | NegInf \<Rightarrow> False | NaN \<Rightarrow> False)"

text \<open>\<open>parse_rating\<close>; \<open>str(val)\<close> of a missing cell is "nan".\<close>

definition parse_rating :: "(string \<Rightarrow> pyfloat option) \<Rightarrow> string option \<Rightarrow> pyfloat" where
  "parse_rating py_float val =
     (case py_float (py_replace (case val of Some v \<Rightarrow> v | None \<Rightarrow> ''nan'') '','' ''.'') of
        Some x \<Rightarrow> x
      | None \<Rightarrow> Finite 0)"

definition rating_filter :: "(string \<Rightarrow> pyfloat option) \<Rightarrow> pyfloat \<Rightarrow> dataframe \<Rightarrow> dataframe" where
  "rating_filter py_float min_rating df =
     df\<lparr>df_rows :=
          filter (\<lambda>row. float_ge (parse_rating py_float (map_of row ''Rating'')) min_rating)
            (df_rows df)\<rparr>"

definition bind_err :: "'e + 'a \<Rightarrow> ('a \<Rightarrow> 'e + 'b) \<Rightarrow> 'e + 'b" where
  "bind_err r f = (case r of Inl e \<Rightarrow> Inl e | Inr x \<Rightarrow> f x)"

definition filter_leads ::
  "(string \<Rightarrow> pyfloat option) \<Rightarrow> dataframe \<Rightarrow> bool option \<Rightarrow> bool option \<Rightarrow> bool option
     \<Rightarrow> bool option \<Rightarrow> pyfloat option \<Rightarrow> py_error + dataframe" where
  "filter_leads py_float df has_phone has_website has_email has_whatsapp min_rating =
     (if df_empty df then Inr df
      else
        bind_err (case has_phone of
                    None \<Rightarrow> Inr df
                  | Some b \<Rightarrow> str_len_filter df ''Phone'' b) (\<lambda>d.
        bind_err (case has_website of
                    None \<Rightarrow> Inr d
                  | Some b \<Rightarrow> str_len_filter d ''Website'' b) (\<lambda>d.
        bind_err (case has_email of
                    None \<Rightarrow> Inr d
                  | Some b \<Rightarrow>
                      if ''Email'' \<in> set (df_columns d) then str_len_filter d ''Email'' b
                      else Inr d) (\<lambda>d.
        bind_err (case has_whatsapp of
                    None \<Rightarrow> Inr d
                  | Some b \<Rightarrow> str_len_filter d ''WhatsApp Link'' b) (\<lambda>d.
        Inr (case min_rating of
               None \<Rightarrow> d
             | Some m \<Rightarrow>
                 if ''Rating'' \<in> set (df_columns d) then rating_filter py_float m d
                 else d))))))"

section \<open>Search history store\<close>

text \<open>
  The store behind \<open>database.py\<close>: the module flags \<open>db_available\<close> and \<open>SessionLocal\<close>,
  the rows of the table \<open>search_history\<close> with the next value of its integer primary key,
  and whether executing a statement raises. \<open>save_search\<close> returns Python's \<open>None\<close> or an
  integer, together with the store it leaves behind.
\<close>

record search_record =
  rec_id :: int
  rec_keyword :: string
  rec_city :: string
  rec_country :: string
  rec_leads_count :: nat
  rec_leads :: "lead list"
  rec_created_at :: nat

record database =
  db_available :: bool
  session_local :: bool
  statement_raises :: bool
  search_history :: "search_record list"
  next_id :: int

definition save_search ::
  "database \<Rightarrow> string \<Rightarrow> string \<Rightarrow> string \<Rightarrow> lead list \<Rightarrow> nat \<Rightarrow> int option \<times> database" where
  "save_search db keyword city country ls now =
     (if \<not> db_available db \<or> \<not> session_local db then (None, db)
      else if statement_raises db then (None, db)
      else (None,
            db\<lparr>search_history := search_history db @
                  [\<lparr>rec_id = next_id db, rec_keyword = keyword, rec_city = city,
                    rec_country = country, rec_leads_count = length ls, rec_leads = ls,
                    rec_created_at = now\<rparr>],
                next_id := next_id db + 1\<rparr>))"

definition load_search :: "database \<Rightarrow> int \<Rightarrow> search_record option" where
  "load_search db search_id =
     (if \<not> db_available db \<or> \<not> session_local db then None
      else if statement_raises db then None
      else find (\<lambda>r. rec_id r = search_id) (search_history db))"

section \<open>Notions of the specification and example environments\<close>

text \<open>
  The host of an absolute URL, as the specification's website property reads it: the text
  between "://" and the next slash, question mark, hash or colon. The program itself
  has no such notion; it compares a prefix.
\<close>

fun after_scheme :: "string \<Rightarrow> string" where
  "after_scheme [] = []"
| "after_scheme (c # cs) =
     (if startswith (c # cs) ''://'' then drop 3 (c # cs) else after_scheme cs)"

definition url_host :: "string \<Rightarrow> string" where
  "url_host url = takeWhile (\<lambda>c. c \<notin> set ''/?#:'') (after_scheme url)"

text \<open>A detail view whose website link points at the mapping service without "www.".\<close>

definition maps_link_page :: page where
  "maps_link_page =
     \<lparr>current_url = Some ''https://www.google.com/maps/place/x'',
      elements =
        [(''h1'', \<lparr>elem_text = ''Joe's Cafe'', elem_aria_label = None, elem_href = None\<rparr>),
         (''a[data-item-id='authority']'',
          \<lparr>elem_text = [], elem_aria_label = None,
           elem_href = Some ''https://google.com/maps?cid=1''\<rparr>)],
      body_text = None\<rparr>"

text \<open>A store that is available, with an empty table.\<close>

definition fresh_store :: database where
  "fresh_store =
     \<lparr>db_available = True, session_local = True, statement_raises = False,
      search_history = [], next_id = 1\<rparr>"

text \<open>
  The values of Python's \<open>float\<close> on the rating texts of the examples (it raises on every
  other text of the examples), and a lead table with three ratings.
\<close>

definition sample_float :: "string \<Rightarrow> pyfloat option" where
  "sample_float = map_of [(''4.5'', Finite (9 / 2)), (''3.9'', Finite (39 / 10))]"

definition sample_table :: dataframe where
  "sample_table =
     \<lparr>df_columns = [''Business Name'', ''Rating''],
      df_rows = [[(''Business Name'', ''A''), (''Rating'', ''4,5'')],
                 [(''Business Name'', ''B''), (''Rating'', ''N/A'')],
                 [(''Business Name'', ''C''), (''Rating'', ''3.9'')]]\<rparr>"

text \<open>
  Stopping points of the scroller. The reading \<open>p\<close> is a stall when it shows as many
  items as the reading before it (as none, for the first reading). After \<open>n\<close> readings
  the loop may stop for one of two reasons: the last reading reached \<open>max_results\<close>, or
  the last 20 readings were stalls.
\<close>

definition stalled :: "(nat \<Rightarrow> 'a list) \<Rightarrow> nat \<Rightarrow> bool" where
  "stalled polls p = (length (polls p) = (if p = 0 then 0 else length (polls (p - 1))))"

definition reached :: "(nat \<Rightarrow> 'a list) \<Rightarrow> int \<Rightarrow> nat \<Rightarrow> bool" where
  "reached polls max_results n = (0 < n \<and> max_results \<le> int (length (polls (n - 1))))"

definition stall_cap :: "(nat \<Rightarrow> 'a list) \<Rightarrow> nat \<Rightarrow> bool" where
  "stall_cap polls n = (20 \<le> n \<and> (\<forall>p. n - 20 \<le> p \<and> p < n \<longrightarrow> stalled polls p))"

definition stops_after :: "(nat \<Rightarrow> 'a list) \<Rightarrow> int \<Rightarrow> nat \<Rightarrow> bool" where
  "stops_after polls max_results n = (reached polls max_results n \<or> stall_cap polls n)"

text \<open>A result list that shows one more item of \<open>xs\<close> at every reading until all are shown.\<close>

definition loading :: "'a list \<Rightarrow> nat \<Rightarrow> 'a list" where
  "loading xs p = take p xs"

text \<open>
  The display name of a card (\<open>business_name\<close> in the loop), and the cards whose detail
  view gives no name or the display name.
\<close>

definition card_label :: "card \<Rightarrow> string" where
  "card_label c = (case card_link c of Some (Some a) \<Rightarrow> a | _ \<Rightarrow> [])"

definition names_agree :: "card \<Rightarrow> bool" where
  "names_agree c =
     (case detail c of
        None \<Rightarrow> True
      | Some pg \<Rightarrow>
          lead_name (extract_business_details pg) = []
          \<or> lead_name (extract_business_details pg) = card_label c)"

text \<open>
  Example cards and runs: \<open>listed_card label heading\<close> is a card shown as \<open>label\<close> whose
  detail view is headed \<open>heading\<close>; \<open>steady cards\<close> shows the same cards at every reading.
\<close>

definition listed_card :: "string \<Rightarrow> string \<Rightarrow> card" where
  "listed_card label heading =
     \<lparr>card_raises = False, card_link = Some (Some label), click_raises = False,
      detail = Some \<lparr>current_url = Some (''https://www.google.com/maps/place/'' @ heading),
                     elements = [(''h1'', \<lparr>elem_text = heading, elem_aria_label = None,
                                           elem_href = None\<rparr>)],
                     body_text = None\<rparr>\<rparr>"

definition steady :: "'a list \<Rightarrow> nat \<Rightarrow> 'a list" where
  "steady xs p = xs"

definition renamed_env :: run_env where
  "renamed_env =
     \<lparr>browser_error = None, container_found = True,
      readings = steady [listed_card ''A'' ''X'', listed_card ''B'' ''X'']\<rparr>"

definition shared_name_env :: run_env where
  "shared_name_env =
     \<lparr>browser_error = None, container_found = True,
      readings = steady [listed_card ''A'' ''A'', listed_card ''B'' ''B'', listed_card ''A'' ''A'']\<rparr>"

definition five_env :: run_env where
  "five_env =
     \<lparr>browser_error = None, container_found = True,
      readings = steady [listed_card ''A'' ''A'', listed_card ''B'' ''B'', listed_card ''C'' ''C'',
                         listed_card ''D'' ''D'', listed_card ''E'' ''E'']\<rparr>"

definition failing_env :: run_env where
  "failing_env =
     \<lparr>browser_error = Some ''WebDriverException'', container_found = False,
      readings = steady []\<rparr>"

section \<open>Invariants of the loops\<close>

text \<open>
  The state of the scroller's loop after \<open>p\<close> readings, none of which reached
  \<open>max_results\<close>: \<open>last_count\<close> is the count of the previous reading and
  \<open>scroll_attempts\<close> is the number of stalls at the end of the readings made.
\<close>

definition loop_inv :: "(nat \<Rightarrow> 'a list) \<Rightarrow> int \<Rightarrow> nat \<Rightarrow> nat \<Rightarrow> nat \<Rightarrow> bool" where
  "loop_inv polls max_results p last_count a =
     (last_count = (if p = 0 then 0 else length (polls (p - 1)))
      \<and> a \<le> 20 \<and> a \<le> p
      \<and> (\<forall>q. p - a \<le> q \<and> q < p \<longrightarrow> stalled polls q)
      \<and> (a < p \<longrightarrow> \<not> stalled polls (p - a - 1))
      \<and> (\<forall>q<p. \<not> max_results \<le> int (length (polls q))))"

text \<open>
  The state of the loop over the cards: \<open>processed_names\<close> holds exactly the names of
  the leads recorded, and none of them is empty.
\<close>

definition names_inv :: "run_state \<Rightarrow> bool" where
  "names_inv st =
     (processed_names st = lead_name ` set (leads st) \<and> (\<forall>l \<in> set (leads st). lead_name l \<noteq> []))"

section \<open>Properties\<close>

subsection \<open>Store\<close>

text \<open>
  C2: \<open>save_search\<close> returns \<open>None\<close> on every input, also when the store is available
  and accepts the insert: on the fresh store it creates the record with identifier 1,
  which \<open>load_search\<close> reads back, and still returns \<open>None\<close> instead of the identifier.
\<close>

theorem save_search_returns_none:
  "fst (save_search db keyword city country ls now) = None
   \<and> load_search (snd (save_search fresh_store ''Bakery'' ''Leeds'' ''UK'' [] 0)) 1
       = Some \<lparr>rec_id = 1, rec_keyword = ''Bakery'', rec_city = ''Leeds'', rec_country = ''UK'',
               rec_leads_count = 0, rec_leads = [], rec_created_at = 0\<rparr>"
  by (simp add: save_search_def load_search_def fresh_store_def)

theorem save_search_returns_none_witness:
  "fst (save_search fresh_store ''Cafe'' ''York'' ''UK'' [[(''Business Name'', ''Joe's Cafe'')]] 7)
     = None"
  by (rule conjunct1 [OF save_search_returns_none])

subsection \<open>Fields of an extracted lead\<close>

lemma lead_get_set: "lead_get (lead_set l k v) k' d = (if k' = k then v else lead_get l k' d)"
  by (simp add: lead_get_def lead_set_def update_conv')

lemma first_match_Some: "first_match f sels = Some v \<Longrightarrow> \<exists>sel \<in> set sels. f sel = Some v"
  by (induction sels) (auto split: option.splits)

lemma set_maps_link_other:
  "k \<noteq> ''Google Maps Link'' \<Longrightarrow> lead_get (set_maps_link pg l) k d = lead_get l k d"
  by (simp add: set_maps_link_def lead_get_set split: option.split)

lemma set_name_other:
  "k \<noteq> ''Business Name'' \<Longrightarrow> lead_get (set_name pg l) k d = lead_get l k d"
  by (simp add: set_name_def lead_get_set split: option.split)

lemma set_address_other:
  "k \<noteq> ''Address'' \<Longrightarrow> lead_get (set_address pg l) k d = lead_get l k d"
  by (simp add: set_address_def lead_get_set split: option.split)

lemma set_phone_other:
  "k \<noteq> ''Phone'' \<Longrightarrow> k \<noteq> ''WhatsApp Link'' \<Longrightarrow> lead_get (set_phone pg l) k d = lead_get l k d"
  by (simp add: set_phone_def Let_def lead_get_set split: option.split)

lemma set_website_other:
  "k \<noteq> ''Website'' \<Longrightarrow> lead_get (set_website pg l) k d = lead_get l k d"
  by (simp add: set_website_def lead_get_set split: option.split)

lemma set_email_other:
  "k \<noteq> ''Email'' \<Longrightarrow> lead_get (set_email pg l) k d = lead_get l k d"
  by (simp add: set_email_def Let_def lead_get_set)

lemma set_rating_other:
  "k \<noteq> ''Rating'' \<Longrightarrow> lead_get (set_rating pg l) k d = lead_get l k d"
  by (simp add: set_rating_def lead_get_set split: option.split)

lemma set_reviews_other:
  "k \<noteq> ''Reviews'' \<Longrightarrow> lead_get (set_reviews pg l) k d = lead_get l k d"
  by (simp add: set_reviews_def lead_get_set split: option.split)

lemmas set_other = set_maps_link_other set_name_other set_address_other set_phone_other
  set_website_other set_email_other set_rating_other set_reviews_other

lemma website_field:
  "lead_get (extract_business_details pg) ''Website'' [] =
     (case first_match (website_at pg) website_selectors of Some href \<Rightarrow> href | None \<Rightarrow> [])"
proof -
  have "lead_get (extract_business_details pg) ''Website'' []
      = lead_get (set_website pg (set_phone pg (set_address pg (set_name pg
          (set_maps_link pg empty_lead))))) ''Website'' []"
    by (simp add: extract_business_details_def set_other)
  also have "\<dots> = (case first_match (website_at pg) website_selectors of
                      Some href \<Rightarrow> href
                    | None \<Rightarrow> lead_get empty_lead ''Website'' [])"
    by (simp add: set_website_def lead_get_set set_other split: option.split)
  also have "lead_get empty_lead ''Website'' [] = []"
    by (simp add: lead_get_def empty_lead_def)
  finally show ?thesis .
qed

lemma name_field:
  "lead_name (extract_business_details pg) =
     (case first_match (name_at pg) name_selectors of Some n \<Rightarrow> n | None \<Rightarrow> [])"
proof -
  have "lead_name (extract_business_details pg)
      = lead_get (set_name pg (set_maps_link pg empty_lead)) ''Business Name'' []"
    by (simp add: lead_name_def extract_business_details_def set_other)
  also have "\<dots> = (case first_match (name_at pg) name_selectors of
                      Some n \<Rightarrow> n
                    | None \<Rightarrow> lead_get empty_lead ''Business Name'' [])"
    by (simp add: set_name_def lead_get_set set_other split: option.split)
  also have "lead_get empty_lead ''Business Name'' [] = []"
    by (simp add: lead_get_def empty_lead_def)
  finally show ?thesis .
qed

subsection \<open>Messaging link\<close>

lemma phone_fields:
  "lead_get (extract_business_details pg) ''WhatsApp Link'' []
     = create_whatsapp_link (lead_get (extract_business_details pg) ''Phone'' [])"
proof -
  let ?L = "set_address pg (set_name pg (set_maps_link pg empty_lead))"
  have w: "lead_get (extract_business_details pg) ''WhatsApp Link'' []
         = lead_get (set_phone pg ?L) ''WhatsApp Link'' []"
    by (simp add: extract_business_details_def set_other)
  have p: "lead_get (extract_business_details pg) ''Phone'' []
         = lead_get (set_phone pg ?L) ''Phone'' []"
    by (simp add: extract_business_details_def set_other)
  have e: "lead_get ?L ''WhatsApp Link'' [] = []" "lead_get ?L ''Phone'' [] = []"
    by (simp_all add: set_other) (simp_all add: lead_get_def empty_lead_def)
  show ?thesis
    unfolding w p using e
    by (simp add: set_phone_def Let_def lead_get_set create_whatsapp_link_def split: option.split)
qed

text \<open>
  C1, as stated: the link is empty exactly when the phone is empty. The statement fails
  for a non-empty phone text without any digit or plus sign, such as "abc": the cleaned
  text is empty and the function returns the empty link.
\<close>

theorem create_whatsapp_link_iff_counterexample:
  "\<not> (create_whatsapp_link ''abc'' = [] \<longleftrightarrow> ''abc'' = [])"
  by (simp add: create_whatsapp_link_def clean_phone_def is_digit_def)

text \<open>
  C1, amended: the link is empty exactly when the phone holds no digit and no plus sign
  (in particular when it is empty); otherwise it is "https://wa.me/" followed by the
  phone with every character other than digits and plus signs removed. In every lead of
  the extractor the link field is this function of the phone field.
\<close>

theorem create_whatsapp_link_spec:
  "(create_whatsapp_link phone = [] \<longleftrightarrow> \<not> (\<exists>c \<in> set phone. is_digit c \<or> c = CHR ''+''))
   \<and> (create_whatsapp_link phone \<noteq> [] \<longrightarrow>
        create_whatsapp_link phone
          = ''https://wa.me/'' @ filter (\<lambda>c. is_digit c \<or> c = CHR ''+'') phone)
   \<and> lead_get (extract_business_details pg) ''WhatsApp Link'' []
       = create_whatsapp_link (lead_get (extract_business_details pg) ''Phone'' [])"
  using phone_fields [of pg]
  by (auto simp: create_whatsapp_link_def clean_phone_def filter_empty_conv)

theorem create_whatsapp_link_spec_witness:
  "create_whatsapp_link ''+1 (555) 010-9999'' = ''https://wa.me/+15550109999''
   \<and> create_whatsapp_link ''call us'' = []"
  using create_whatsapp_link_spec [where phone = "''+1 (555) 010-9999''"]
    create_whatsapp_link_spec [where phone = "''call us''"]
  by (simp add: is_digit_def)

text \<open>
  C3, as stated: the website of a lead never has the mapping service's domain as its
  host. The statement fails for the link "https://google.com/maps?cid=1": it does not
  begin with "https://www.google.com", so the extractor keeps it, and its host is
  google.com.
\<close>

theorem website_host_counterexample:
  "lead_get (extract_business_details maps_link_page) ''Website'' []
     = ''https://google.com/maps?cid=1''
   \<and> url_host (lead_get (extract_business_details maps_link_page) ''Website'' [])
     = ''google.com''"
  by code_simp

text \<open>
  C3, amended: the website of a lead is either empty or the link target of an element of
  the website selector chain that does not begin with "https://www.google.com".
\<close>

theorem website_not_google_prefix:
  "lead_get (extract_business_details pg) ''Website'' [] = []
   \<or> (\<not> startswith (lead_get (extract_business_details pg) ''Website'' [])
            ''https://www.google.com''
      \<and> (\<exists>selector \<in> set website_selectors. \<exists>elem.
            safe_find_element pg selector = Some elem
            \<and> elem_href elem = Some (lead_get (extract_business_details pg) ''Website'' [])))"
proof (cases "first_match (website_at pg) website_selectors")
  case None
  then show ?thesis by (simp add: website_field)
next
  case (Some href)
  then obtain selector
    where s: "selector \<in> set website_selectors" "website_at pg selector = Some href"
    using first_match_Some by metis
  from s(2) have "\<not> startswith href ''https://www.google.com''
      \<and> (\<exists>elem. safe_find_element pg selector = Some elem \<and> elem_href elem = Some href)"
    by (auto simp: website_at_def split: option.splits if_splits)
  with s(1) Some show ?thesis
    by (auto simp: website_field)
qed

theorem website_not_google_prefix_witness:
  "lead_get (extract_business_details maps_link_page) ''Website'' [] \<noteq> []
   \<and> \<not> startswith (lead_get (extract_business_details maps_link_page) ''Website'' [])
          ''https://www.google.com''"
proof -
  have "lead_get (extract_business_details maps_link_page) ''Website'' [] \<noteq> []"
    by code_simp
  then show ?thesis
    using website_not_google_prefix [of maps_link_page] by blast
qed

subsection \<open>Deduplication\<close>

lemma dedup_loop_acc: "dedup_loop seen u ls = u @ dedup_loop seen [] ls"
proof (induction ls arbitrary: seen u)
  case Nil
  show ?case by simp
next
  case (Cons l ls)
  show ?case
    using Cons.IH [of "insert (dedup_key l) seen" "u @ [l]"]
      Cons.IH [of "insert (dedup_key l) seen" "[l]"] Cons.IH [of seen u]
    by (simp add: Let_def)
qed

lemma dedup_loop_Cons:
  "dedup_loop seen [] (l # ls) =
     (if fst (dedup_key l) \<noteq> [] \<and> dedup_key l \<notin> seen
      then l # dedup_loop (insert (dedup_key l) seen) [] ls
      else dedup_loop seen [] ls)"
  using dedup_loop_acc [of "insert (dedup_key l) seen" "[l]" ls]
  by (simp add: Let_def)

declare dedup_loop.simps(2) [simp del]

lemma dedup_loop_keys:
  "x \<in> set (dedup_loop seen [] ls)
   \<Longrightarrow> fst (dedup_key x) \<noteq> [] \<and> dedup_key x \<notin> seen \<and> x \<in> set ls"
  by (induction ls arbitrary: seen) (auto simp: dedup_loop_Cons split: if_splits)

lemma dedup_loop_distinct: "distinct (map dedup_key (dedup_loop seen [] ls))"
  by (induction ls arbitrary: seen) (auto simp: dedup_loop_Cons dest: dedup_loop_keys)

lemma dedup_loop_subseq: "subseq (dedup_loop seen [] ls) ls"
  by (induction ls arbitrary: seen) (auto simp: dedup_loop_Cons)

lemma dedup_loop_fixed:
  "distinct (map dedup_key ys)
   \<Longrightarrow> \<forall>y \<in> set ys. fst (dedup_key y) \<noteq> [] \<and> dedup_key y \<notin> seen
   \<Longrightarrow> dedup_loop seen [] ys = ys"
proof (induction ys arbitrary: seen)
  case Nil
  show ?case by simp
next
  case (Cons y ys)
  have "dedup_key z \<noteq> dedup_key y" if "z \<in> set ys" for z
    using that Cons.prems(1) by (metis distinct.simps(2) image_eqI list.simps(9) set_map)
  then have "\<forall>z \<in> set ys. fst (dedup_key z) \<noteq> [] \<and> dedup_key z \<notin> insert (dedup_key y) seen"
    using Cons.prems(2) by simp
  then have "dedup_loop (insert (dedup_key y) seen) [] ys = ys"
    using Cons.IH Cons.prems(1) by simp
  then show ?case
    using Cons.prems(2) by (simp add: dedup_loop_Cons)
qed

lemma dedup_loop_snoc:
  "dedup_loop seen [] (xs @ [x]) =
     dedup_loop seen [] xs @
       (if fst (dedup_key x) \<noteq> [] \<and> dedup_key x \<notin> seen \<and> dedup_key x \<notin> dedup_key ` set xs
        then [x] else [])"
  by (induction xs arbitrary: seen) (auto simp: dedup_loop_Cons)

lemma dedup_positions:
  "dedup_loop {} [] L = map ((!) L) (filter (first_of_key L) [0..<length L])"
proof (induction L rule: rev_induct)
  case Nil
  show ?case by simp
next
  case (snoc x xs)
  have a: "filter (first_of_key (xs @ [x])) [0..<length xs]
         = filter (first_of_key xs) [0..<length xs]"
    by (rule filter_cong) (auto simp: first_of_key_def nth_append)
  have b: "map ((!) (xs @ [x])) (filter (first_of_key xs) [0..<length xs])
         = map ((!) xs) (filter (first_of_key xs) [0..<length xs])"
    by (rule map_cong) (auto simp: nth_append)
  have c: "first_of_key (xs @ [x]) (length xs)
       \<longleftrightarrow> fst (dedup_key x) \<noteq> [] \<and> dedup_key x \<notin> dedup_key ` set xs"
  proof -
    have "(\<forall>j<length xs. dedup_key (xs ! j) \<noteq> dedup_key x)
          \<longleftrightarrow> dedup_key x \<notin> dedup_key ` set xs"
      by (metis (no_types, lifting) image_iff in_set_conv_nth)
    then show ?thesis
      by (simp add: first_of_key_def nth_append)
  qed
  show ?case
    by (simp add: dedup_loop_snoc snoc.IH a b c)
qed

text \<open>
  C5: deduplicating twice gives what deduplicating once gives; the output is a
  subsequence of the input; and the output consists, in order, of exactly the leads at the
  positions that hold the first lead of their key, the key being the lowercased and
  trimmed name and address (leads whose trimmed name is empty have no place in it).
\<close>

theorem deduplicate_leads_first_wins:
  "deduplicate_leads (deduplicate_leads L) = deduplicate_leads L
   \<and> subseq (deduplicate_leads L) L
   \<and> deduplicate_leads L = map ((!) L) (filter (first_of_key L) [0..<length L])"
proof -
  have "dedup_loop {} [] (dedup_loop {} [] L) = dedup_loop {} [] L"
    by (rule dedup_loop_fixed) (auto simp: dedup_loop_distinct dest: dedup_loop_keys)
  then show ?thesis
    by (simp add: deduplicate_leads_def dedup_loop_subseq dedup_positions [symmetric])
qed

theorem deduplicate_leads_first_wins_witness:
  "deduplicate_leads (deduplicate_leads
     [[(''Business Name'', '' Joe's Cafe ''), (''Address'', ''1 High St'')],
      [(''Business Name'', ''joe's cafe''), (''Address'', ''1 high st'')],
      [(''Business Name'', ''Joe's Cafe''), (''Address'', ''2 Low Rd'')]])
   = [[(''Business Name'', '' Joe's Cafe ''), (''Address'', ''1 High St'')],
      [(''Business Name'', ''Joe's Cafe''), (''Address'', ''2 Low Rd'')]]
   \<and> subseq
      [[(''Business Name'', '' Joe's Cafe ''), (''Address'', ''1 High St'')],
       [(''Business Name'', ''Joe's Cafe''), (''Address'', ''2 Low Rd'')]]
      [[(''Business Name'', '' Joe's Cafe ''), (''Address'', ''1 High St'')],
       [(''Business Name'', ''joe's cafe''), (''Address'', ''1 high st'')],
       [(''Business Name'', ''Joe's Cafe''), (''Address'', ''2 Low Rd'')]]"
proof -
  have e: "deduplicate_leads
     [[(''Business Name'', '' Joe's Cafe ''), (''Address'', ''1 High St'')],
      [(''Business Name'', ''joe's cafe''), (''Address'', ''1 high st'')],
      [(''Business Name'', ''Joe's Cafe''), (''Address'', ''2 Low Rd'')]]
   = [[(''Business Name'', '' Joe's Cafe ''), (''Address'', ''1 High St'')],
      [(''Business Name'', ''Joe's Cafe''), (''Address'', ''2 Low Rd'')]]"
    by code_simp
  show ?thesis
    using deduplicate_leads_first_wins
      [of "[[(''Business Name'', '' Joe's Cafe ''), (''Address'', ''1 High St'')],
        [(''Business Name'', ''joe's cafe''), (''Address'', ''1 high st'')],
        [(''Business Name'', ''Joe's Cafe''), (''Address'', ''2 Low Rd'')]]"]
    unfolding e by blast
qed

subsection \<open>Filtering\<close>

text \<open>
  C10: on an empty lead table (no row or no column) \<open>filter_leads\<close> returns the table
  itself, whatever the five arguments are; no predicate is applied, so none can raise.
\<close>

theorem filter_leads_empty:
  "df_empty df \<Longrightarrow>
   filter_leads py_float df has_phone has_website has_email has_whatsapp min_rating = Inr df"
  by (simp add: filter_leads_def)

theorem filter_leads_empty_witness:
  "df_empty \<lparr>df_columns = [], df_rows = []\<rparr>
   \<and> filter_leads Map.empty \<lparr>df_columns = [], df_rows = []\<rparr>
        (Some True) (Some False) (Some True) (Some True) (Some (Finite 4))
     = Inr \<lparr>df_columns = [], df_rows = []\<rparr>"
proof -
  have h: "df_empty \<lparr>df_columns = [], df_rows = []\<rparr>"
    by (simp add: df_empty_def)
  show ?thesis
    using h filter_leads_empty [OF h] by simp
qed

lemma str_len_filter_columns:
  "str_len_filter df col b = Inr d \<Longrightarrow> df_columns d = df_columns df"
  by (auto simp: str_len_filter_def split: if_splits)

lemma presence_step_columns:
  "(case hp of None \<Rightarrow> Inr df | Some b \<Rightarrow> str_len_filter df col b) = Inr d
   \<Longrightarrow> df_columns d = df_columns df"
  by (cases hp) (auto dest: str_len_filter_columns)

lemma email_step_columns:
  "(case he of None \<Rightarrow> Inr df
    | Some b \<Rightarrow> if ''Email'' \<in> set (df_columns df) then str_len_filter df ''Email'' b else Inr df) = Inr d
   \<Longrightarrow> df_columns d = df_columns df"
  by (cases he) (auto dest: str_len_filter_columns split: if_splits)

lemma filter_leads_rating_last:
  assumes "\<not> df_empty df" and "''Rating'' \<in> set (df_columns df)"
  shows "filter_leads py_float df hp hw he hwa (Some m)
       = bind_err (filter_leads py_float df hp hw he hwa None)
           (\<lambda>d. Inr (rating_filter py_float m d))"
proof -
  let ?s1 = "case hp of None \<Rightarrow> Inr df | Some b \<Rightarrow> str_len_filter df ''Phone'' b"
  show ?thesis
  proof (cases ?s1)
    case (Inl e)
    then show ?thesis using assms by (simp add: filter_leads_def bind_err_def)
  next
    case d1: (Inr d1)
    have c1: "df_columns d1 = df_columns df" using d1 by (rule presence_step_columns)
    let ?s2 = "case hw of None \<Rightarrow> Inr d1 | Some b \<Rightarrow> str_len_filter d1 ''Website'' b"
    show ?thesis
    proof (cases ?s2)
      case (Inl e)
      then show ?thesis using assms d1 by (simp add: filter_leads_def bind_err_def)
    next
      case d2: (Inr d2)
      have c2: "df_columns d2 = df_columns df" using d2 c1 by (simp add: presence_step_columns)
      let ?s3 = "case he of None \<Rightarrow> Inr d2
          | Some b \<Rightarrow> if ''Email'' \<in> set (df_columns d2) then str_len_filter d2 ''Email'' b else Inr d2"
      show ?thesis
      proof (cases ?s3)
        case (Inl e)
        then show ?thesis using assms d1 d2 by (simp add: filter_leads_def bind_err_def)
      next
        case d3: (Inr d3)
        have c3: "df_columns d3 = df_columns df" using d3 c2 by (simp add: email_step_columns)
        let ?s4 = "case hwa of None \<Rightarrow> Inr d3 | Some b \<Rightarrow> str_len_filter d3 ''WhatsApp Link'' b"
        show ?thesis
        proof (cases ?s4)
          case (Inl e)
          then show ?thesis using assms d1 d2 d3 by (simp add: filter_leads_def bind_err_def)
        next
          case d4: (Inr d4)
          have c4: "df_columns d4 = df_columns df" using d4 c3 by (simp add: presence_step_columns)
          show ?thesis using assms d1 d2 d3 d4 c4 by (simp add: filter_leads_def bind_err_def)
        qed
      qed
    qed
  qed
qed

lemma filter_leads_no_predicates:
  "\<not> df_empty df \<Longrightarrow> filter_leads py_float df None None None None None = Inr df"
  by (simp add: filter_leads_def bind_err_def)

text \<open>
  C6: on a non-empty table with a rating column, the minimum-rating filter keeps, of the
  rows that pass the other predicates, exactly those whose parsed rating is at least the
  minimum; the rating text is parsed by Python's \<open>float\<close> after every comma is replaced
  by a point, and counts as 0 when \<open>float\<close> raises. Given that \<open>float\<close> reads "4.5" as 4.5
  and raises on "N/A", a row with the rating "4,5" is kept at the minimum 4.0, and a row
  with the rating "N/A" is dropped at every positive minimum.
\<close>

theorem filter_leads_min_rating:
  assumes "\<not> df_empty df" and "''Rating'' \<in> set (df_columns df)"
    and "py_float ''4.5'' = Some (Finite (9 / 2))" and "py_float ''N/A'' = None"
  shows "filter_leads py_float df has_phone has_website has_email has_whatsapp (Some m)
           = bind_err (filter_leads py_float df has_phone has_website has_email has_whatsapp None)
               (\<lambda>d. Inr (d\<lparr>df_rows :=
                  filter (\<lambda>row. float_ge (parse_rating py_float (map_of row ''Rating'')) m)
                    (df_rows d)\<rparr>))
         \<and> (\<forall>v. parse_rating py_float (Some v)
                = (case py_float (py_replace v '','' ''.'') of Some x \<Rightarrow> x | None \<Rightarrow> Finite 0))
         \<and> (\<forall>row \<in> set (df_rows df). map_of row ''Rating'' = Some ''4,5'' \<longrightarrow>
              (\<exists>out. filter_leads py_float df None None None None (Some (Finite 4)) = Inr out
                     \<and> row \<in> set (df_rows out)))
         \<and> (\<forall>row \<in> set (df_rows df). map_of row ''Rating'' = Some ''N/A'' \<longrightarrow> float_positive m \<longrightarrow>
              (\<exists>out. filter_leads py_float df None None None None (Some m) = Inr out
                     \<and> row \<notin> set (df_rows out)))"
proof -
  have rep: "py_replace ''4,5'' '','' ''.'' = ''4.5''" "py_replace ''N/A'' '','' ''.'' = ''N/A''"
    by (simp_all add: py_replace_def)
  have p45: "parse_rating py_float (Some ''4,5'') = Finite (9 / 2)"
    using assms(3) by (simp add: parse_rating_def rep)
  have pna: "parse_rating py_float (Some ''N/A'') = Finite 0"
    using assms(4) by (simp add: parse_rating_def rep)
  have low: "\<not> float_ge (Finite 0) m" if "float_positive m"
    using that by (cases m) (simp_all add: float_positive_def)
  have only: "filter_leads py_float df None None None None (Some x) = Inr (rating_filter py_float x df)" for x
    using assms(1,2) by (simp add: filter_leads_rating_last filter_leads_no_predicates bind_err_def)
  show ?thesis
    using assms(1,2) p45 pna low
    by (simp add: filter_leads_rating_last only rating_filter_def parse_rating_def)
qed

theorem filter_leads_min_rating_witness:
  "\<not> df_empty sample_table \<and> ''Rating'' \<in> set (df_columns sample_table)
   \<and> sample_float ''4.5'' = Some (Finite (9 / 2)) \<and> sample_float ''N/A'' = None
   \<and> filter_leads sample_float sample_table None None None None (Some (Finite 4))
       = Inr (sample_table\<lparr>df_rows := [[(''Business Name'', ''A''), (''Rating'', ''4,5'')]]\<rparr>)"
proof -
  have h1: "\<not> df_empty sample_table"
    by (simp add: df_empty_def sample_table_def)
  have h2: "''Rating'' \<in> set (df_columns sample_table)"
    by (simp add: sample_table_def)
  have h3: "sample_float ''4.5'' = Some (Finite (9 / 2))"
    by (simp add: sample_float_def)
  have h4: "sample_float ''N/A'' = None"
    by (simp add: sample_float_def)
  have none: "filter_leads sample_float sample_table None None None None None = Inr sample_table"
    using h1 by (simp add: filter_leads_def bind_err_def)
  have rows: "filter (\<lambda>row. float_ge (parse_rating sample_float (map_of row ''Rating'')) (Finite 4))
                (df_rows sample_table) = [[(''Business Name'', ''A''), (''Rating'', ''4,5'')]]"
    by (simp add: sample_table_def parse_rating_def py_replace_def sample_float_def)
  show ?thesis
    using h1 h2 h3 h4
      filter_leads_min_rating [OF h1 h2 h3 h4, of None None None None "Finite 4"]
    by (simp add: none bind_err_def rows)
qed


subsection \<open>Scroller\<close>

lemma loop_inv_init: "loop_inv polls max_results 0 0 0"
  by (simp add: loop_inv_def)

lemma loop_inv_not_stop:
  assumes "loop_inv polls max_results p l a" "a < 20"
  shows "\<not> stops_after polls max_results p"
proof -
  have r: "\<not> reached polls max_results p"
    using assms(1) by (auto simp: loop_inv_def reached_def)
  have "\<not> stall_cap polls p"
  proof
    assume sc: "stall_cap polls p"
    then have p20: "20 \<le> p" and w: "\<forall>q. p - 20 \<le> q \<and> q < p \<longrightarrow> stalled polls q"
      by (auto simp: stall_cap_def)
    from p20 assms(2) have "a < p" by simp
    then have "\<not> stalled polls (p - a - 1)" using assms(1) by (simp add: loop_inv_def)
    moreover have "p - 20 \<le> p - a - 1 \<and> p - a - 1 < p" using p20 assms(2) by arith
    ultimately show False using w by blast
  qed
  with r show ?thesis by (simp add: stops_after_def)
qed

lemma loop_inv_stall:
  assumes "loop_inv polls max_results p l a" "a < 20"
    "\<not> max_results \<le> int (length (polls p))" "length (polls p) = l"
  shows "loop_inv polls max_results (Suc p) l (Suc a)"
proof -
  have st: "stalled polls p"
    using assms(1,4) by (auto simp: loop_inv_def stalled_def)
  have w: "\<forall>q. Suc p - Suc a \<le> q \<and> q < Suc p \<longrightarrow> stalled polls q"
    using assms(1) st by (auto simp: loop_inv_def less_Suc_eq)
  have r: "\<forall>q<Suc p. \<not> max_results \<le> int (length (polls q))"
    using assms(1,3) by (auto simp: loop_inv_def less_Suc_eq)
  show ?thesis
    unfolding loop_inv_def
    using assms(1,2,4) w r by (auto simp: loop_inv_def)
qed

lemma loop_inv_growth:
  assumes "loop_inv polls max_results p l a"
    "\<not> max_results \<le> int (length (polls p))" "length (polls p) \<noteq> l"
  shows "loop_inv polls max_results (Suc p) (length (polls p)) 0"
proof -
  have st: "\<not> stalled polls p"
    using assms(1,3) by (auto simp: loop_inv_def stalled_def)
  have r: "\<forall>q<Suc p. \<not> max_results \<le> int (length (polls q))"
    using assms(1,2) by (auto simp: loop_inv_def less_Suc_eq)
  show ?thesis
    unfolding loop_inv_def using st r by auto
qed

lemma scroll_loop_runs_to:
  assumes "stops_after polls max_results n" "\<forall>k<n. \<not> stops_after polls max_results k"
    "loop_inv polls max_results p l a" "p \<le> n"
  shows "scroll_loop polls max_results p l a = Some n"
  using assms(3,4)
proof (induction "n - p" arbitrary: p l a)
  case 0
  then have pn: "p = n" by simp
  have "\<not> a < 20"
    using loop_inv_not_stop [OF "0.prems"(1)] assms(1) pn by blast
  then show ?case
    by (subst scroll_loop.simps) (simp add: pn)
next
  case (Suc d)
  then have lt: "p < n" by simp
  show ?case
  proof (cases "a < 20")
    case False
    then have a20: "a = 20" using Suc.prems(1) by (simp add: loop_inv_def)
    have "stall_cap polls p"
      using Suc.prems(1) a20 by (auto simp: loop_inv_def stall_cap_def)
    then have "stops_after polls max_results p" by (simp add: stops_after_def)
    with assms(2) lt show ?thesis by blast
  next
    case True
    show ?thesis
    proof (cases "max_results \<le> int (length (polls p))")
      case reach: True
      then have "stops_after polls max_results (Suc p)"
        by (simp add: stops_after_def reached_def)
      moreover have "\<not> Suc p < n"
        using assms(2) calculation by blast
      ultimately have "Suc p = n"
        using lt by simp
      then show ?thesis
        using True reach by (subst scroll_loop.simps) simp
    next
      case noreach: False
      show ?thesis
      proof (cases "length (polls p) = l")
        case same: True
        have "scroll_loop polls max_results (Suc p) l (Suc a) = Some n"
          using Suc.hyps(1) [of "Suc p" l "Suc a"] Suc.hyps(2) lt
            loop_inv_stall [OF Suc.prems(1) True noreach same]
          by simp
        then show ?thesis
          using True noreach same by (subst scroll_loop.simps) simp
      next
        case diff: False
        have "scroll_loop polls max_results (Suc p) (length (polls p)) 0 = Some n"
          using Suc.hyps(1) [of "Suc p" "length (polls p)" 0] Suc.hyps(2) lt
            loop_inv_growth [OF Suc.prems(1) noreach diff]
          by simp
        then show ?thesis
          using True noreach diff by (subst scroll_loop.simps) (simp add: Let_def)
      qed
    qed
  qed
qed

lemma growth_in_every_window:
  assumes mono: "\<forall>p q. p \<le> q \<longrightarrow> length (polls p) \<le> length (polls q)"
    and nostall: "\<forall>n. \<not> stall_cap polls n"
  shows "j \<le> length (polls (20 * j + 19))"
proof (induction j)
  case 0
  show ?case by simp
next
  case (Suc j)
  have "\<not> stall_cap polls (20 * Suc j + 20)" using nostall by blast
  then obtain q where q: "20 * Suc j \<le> q" "q < 20 * Suc j + 20" "\<not> stalled polls q"
    by (auto simp: stall_cap_def)
  then have "length (polls q) \<noteq> length (polls (q - 1))" and q0: "0 < q"
    by (auto simp: stalled_def split: if_splits)
  moreover have "length (polls (q - 1)) \<le> length (polls q)"
  proof -
    have "q - 1 \<le> q" by simp
    then show ?thesis using mono by blast
  qed
  ultimately have "length (polls (q - 1)) < length (polls q)" by simp
  moreover have "length (polls (20 * j + 19)) \<le> length (polls (q - 1))"
  proof -
    have "20 * j + 19 \<le> q - 1" using q(1) by simp
    then show ?thesis using mono by blast
  qed
  moreover have "length (polls q) \<le> length (polls (20 * Suc j + 19))"
  proof -
    have "q \<le> 20 * Suc j + 19" using q(2) by simp
    then show ?thesis using mono by blast
  qed
  ultimately show ?case using Suc.IH by linarith
qed

lemma exists_stop:
  assumes mono: "\<forall>p q. p \<le> q \<longrightarrow> length (polls p) \<le> length (polls q)"
    and bound: "\<forall>p. length (polls p) \<le> B"
  shows "\<exists>n. stops_after polls max_results n"
proof (rule ccontr)
  assume "\<not> (\<exists>n. stops_after polls max_results n)"
  then have "\<forall>n. \<not> stall_cap polls n" by (simp add: stops_after_def)
  then have "Suc B \<le> length (polls (20 * Suc B + 19))"
    using growth_in_every_window [OF mono] by blast
  moreover have "length (polls (20 * Suc B + 19)) \<le> B" using bound by blast
  ultimately show False by simp
qed

text \<open>
  C8: when the number of items shown never decreases from one reading to the next and
  stays below a bound, \<open>scroll_results_panel\<close> returns. It returns the list of the reading
  that follows its loop, and the loop makes exactly \<open>n\<close> readings, where \<open>n\<close> is the first
  number of readings after which the last reading reached \<open>max_results\<close> or the last 20
  readings were stalls; the list returned may be shorter than \<open>max_results\<close>.
\<close>

theorem scroll_results_panel_terminates:
  assumes "\<forall>p q. p \<le> q \<longrightarrow> length (polls p) \<le> length (polls q)"
    and "\<forall>p. length (polls p) \<le> B"
  shows "\<exists>n. scroll_results_panel polls max_results = Some (polls n, Suc n)
             \<and> stops_after polls max_results n
             \<and> (\<forall>k<n. \<not> stops_after polls max_results k)"
proof -
  obtain m where "stops_after polls max_results m"
    using exists_stop [OF assms] by blast
  then obtain n where n: "stops_after polls max_results n"
      and least: "\<forall>k<n. \<not> stops_after polls max_results k"
    using exists_least_iff [of "stops_after polls max_results"] by blast
  have "scroll_loop polls max_results 0 0 0 = Some n"
    using scroll_loop_runs_to [OF n least loop_inv_init] by simp
  then have "scroll_results_panel polls max_results = Some (polls n, Suc n)"
    by (simp add: scroll_results_panel_def)
  with n least show ?thesis by blast
qed

theorem scroll_results_panel_terminates_witness:
  "scroll_results_panel (loading [1, 2, 3 :: nat]) 10 = Some ([1, 2, 3], 25)
   \<and> (\<exists>n. scroll_results_panel (loading [1, 2, 3 :: nat]) 10
             = Some (loading [1, 2, 3] n, Suc n)
           \<and> stops_after (loading [1, 2, 3 :: nat]) 10 n)"
proof -
  have mono: "\<forall>p q. p \<le> q \<longrightarrow> length (loading [1, 2, 3 :: nat] p) \<le> length (loading [1, 2, 3 :: nat] q)"
    by (simp add: loading_def min_le_iff_disj)
  have bound: "\<forall>p. length (loading [1, 2, 3 :: nat] p) \<le> 3"
    by (auto simp: loading_def)
  have run: "scroll_results_panel (loading [1, 2, 3 :: nat]) 10 = Some ([1, 2, 3], 25)"
    by code_simp
  show ?thesis
    using scroll_results_panel_terminates [OF mono bound, of 10] run by blast
qed

subsection \<open>Loop over the cards\<close>

lemma lead_name_set: "lead_name (lead_set l ''Business Name'' v) = v"
  by (simp add: lead_name_def lead_get_set)

lemma process_card_result:
  "process_card c idx st = st
   \<or> process_card c idx st = st\<lparr>opened := opened st @ [idx]\<rparr>
   \<or> (\<exists>lead. process_card c idx st
                = st\<lparr>opened := opened st @ [idx],
                      processed_names := insert (lead_name lead) (processed_names st),
                      leads := leads st @ [lead]\<rparr>
              \<and> lead_name lead \<noteq> []
              \<and> card_label c \<notin> processed_names st
              \<and> (names_agree c \<longrightarrow> lead_name lead = card_label c))"
proof (cases "card_raises c \<or> card_link c = None \<or> card_label c \<in> processed_names st
              \<or> click_raises c")
  case True
  then have "process_card c idx st = st"
    by (auto simp: process_card_def card_label_def Let_def split: option.splits)
  then show ?thesis by simp
next
  case False
  then obtain label where label: "card_link c = Some label"
    by auto
  have bn: "(case label of Some a \<Rightarrow> a | None \<Rightarrow> []) = card_label c"
    using label by (simp add: card_label_def split: option.splits)
  show ?thesis
  proof (cases "detail c")
    case None
    then have "process_card c idx st = st\<lparr>opened := opened st @ [idx]\<rparr>"
      using False label bn by (simp add: process_card_def Let_def)
    then show ?thesis by simp
  next
    case (Some pg)
    define lead where "lead =
      (if lead_name (extract_business_details pg) = [] \<and> card_label c \<noteq> []
       then lead_set (extract_business_details pg) ''Business Name'' (card_label c)
       else extract_business_details pg)"
    have step: "process_card c idx st =
        (if lead_name lead \<noteq> []
         then st\<lparr>opened := opened st @ [idx],
                 processed_names := insert (lead_name lead) (processed_names st),
                 leads := leads st @ [lead]\<rparr>
         else st\<lparr>opened := opened st @ [idx]\<rparr>)"
      using False label bn Some by (simp add: process_card_def Let_def lead_def)
    have agree: "lead_name lead = card_label c" if "names_agree c" "lead_name lead \<noteq> []"
      using that Some by (auto simp: names_agree_def lead_def lead_name_set split: if_splits)
    show ?thesis
    proof (cases "lead_name lead = []")
      case True
      then show ?thesis using step by simp
    next
      case nonempty: False
      then show ?thesis using step False agree by auto
    qed
  qed
qed

lemma process_card_names_inv: "names_inv st \<Longrightarrow> names_inv (process_card c idx st)"
  using process_card_result [of c idx st]
  by (auto simp: names_inv_def)

lemma process_card_distinct:
  "names_inv st \<Longrightarrow> names_agree c \<Longrightarrow> distinct (map lead_name (leads st))
   \<Longrightarrow> distinct (map lead_name (leads (process_card c idx st)))"
  using process_card_result [of c idx st]
  by (auto simp: names_inv_def)

lemma card_loop_names_inv:
  "names_inv st \<Longrightarrow> names_inv (card_loop polls p idx remaining st)"
  by (induction remaining arbitrary: p idx st) (auto simp: Let_def process_card_names_inv)

lemma card_loop_distinct:
  "names_inv st \<Longrightarrow> distinct (map lead_name (leads st))
   \<Longrightarrow> \<forall>p. \<forall>c \<in> set (polls p). names_agree c
   \<Longrightarrow> distinct (map lead_name (leads (card_loop polls p idx remaining st)))"
proof (induction remaining arbitrary: p idx st)
  case 0
  then show ?case by simp
next
  case (Suc remaining)
  show ?case
  proof (cases "length (polls p) \<le> idx")
    case True
    then show ?thesis using Suc.prems by simp
  next
    case False
    then have "polls p ! idx \<in> set (polls p)"
      by simp
    then have "names_agree (polls p ! idx)"
      using Suc.prems(3) by blast
    then show ?thesis
      using False Suc.prems Suc.IH process_card_names_inv process_card_distinct
      by (simp add: Let_def)
  qed
qed

lemma names_inv_initial: "names_inv initial_state"
  by (simp add: names_inv_def initial_state_def)

lemma run_cards_names_inv: "run_cards env max_results = Some (Inr st) \<Longrightarrow> names_inv st"
  by (auto simp: run_cards_def Let_def names_inv_initial card_loop_names_inv
      split: option.splits if_splits prod.splits)

lemma run_cards_distinct:
  assumes "run_cards env max_results = Some (Inr st)"
    and "\<forall>p. \<forall>c \<in> set (readings env p). names_agree c"
  shows "distinct (map lead_name (leads st))"
proof -
  have start: "distinct (map lead_name (leads initial_state))"
    by (simp add: initial_state_def)
  have "distinct (map lead_name (leads (card_loop (readings env) p idx remaining initial_state)))"
    for p idx remaining
    using card_loop_distinct [OF names_inv_initial start assms(2)] by blast
  then show ?thesis
    using assms(1) start
    by (auto simp: run_cards_def Let_def split: option.splits if_splits prod.splits)
qed

text \<open>
  C4, as stated: the leads of a run never share a name. The statement fails when two
  cards shown as "A" and "B" both open a detail view headed "X": the loop compares the
  display name with the names recorded from detail views, opens both cards, and returns
  two leads named "X".
\<close>

theorem in_run_dedup_counterexample:
  "map_option (map_sum id (\<lambda>st. (map lead_name (leads st), opened st))) (run_cards renamed_env 2)
     = Some (Inr ([''X'', ''X''], [0, 1]))"
  by code_simp

text \<open>
  C4, amended: a card whose display name is in \<open>processed_names\<close> is skipped and leaves
  the state as it was, so it is not opened; \<open>processed_names\<close> is the set of the names of
  the leads recorded; and when every card's detail view gives no name or the card's
  display name, no two leads of the run have the same name.
\<close>

theorem in_run_dedup_by_display_name:
  "(card_label c \<in> processed_names st0 \<longrightarrow> process_card c idx st0 = st0)
   \<and> (run_cards env max_results = Some (Inr st) \<longrightarrow>
        processed_names st = lead_name ` set (leads st)
        \<and> ((\<forall>p. \<forall>c \<in> set (readings env p). names_agree c) \<longrightarrow>
             distinct (map lead_name (leads st))))"
proof -
  have "process_card c idx st0 = st0" if "card_label c \<in> processed_names st0"
    using that by (auto simp: process_card_def card_label_def Let_def split: option.splits)
  moreover have "processed_names st = lead_name ` set (leads st)"
    if "run_cards env max_results = Some (Inr st)"
    using run_cards_names_inv [OF that] by (simp add: names_inv_def)
  ultimately show ?thesis
    using run_cards_distinct by blast
qed

theorem in_run_dedup_by_display_name_witness:
  "\<exists>st. run_cards shared_name_env 3 = Some (Inr st)
        \<and> map lead_name (leads st) = [''A'', ''B''] \<and> opened st = [0, 1]
        \<and> processed_names st = {''A'', ''B''}
        \<and> distinct (map lead_name (leads st))"
proof -
  have run: "map_option (map_sum id (\<lambda>st. (map lead_name (leads st), opened st)))
               (run_cards shared_name_env 3) = Some (Inr ([''A'', ''B''], [0, 1]))"
    by code_simp
  then obtain st where st: "run_cards shared_name_env 3 = Some (Inr st)"
      "map lead_name (leads st) = [''A'', ''B'']" "opened st = [0, 1]"
    by (cases "run_cards shared_name_env 3"; cases "the (run_cards shared_name_env 3)") auto
  have a: "names_agree (listed_card ''A'' ''A'')" and b: "names_agree (listed_card ''B'' ''B'')"
    by code_simp+
  have agree: "\<forall>p. \<forall>c \<in> set (readings shared_name_env p). names_agree c"
    using a b by (simp add: shared_name_env_def steady_def)
  have "processed_names st = lead_name ` set (leads st) \<and> distinct (map lead_name (leads st))"
    using in_run_dedup_by_display_name [of _ _ _ shared_name_env 3 st] st(1) agree by blast
  moreover have "lead_name ` set (leads st) = {''A'', ''B''}"
    using st(2) by (metis list.set(1) list.simps(15) set_map)
  ultimately show ?thesis using st by auto
qed

subsection \<open>Names are never empty\<close>

lemma is_space_lower_char: "is_space (lower_char c) = is_space c"
  by (auto simp: is_space_def lower_char_def Let_def)

lemma dropWhile_all_iff: "(\<forall>c \<in> set (dropWhile P s). P c) \<longleftrightarrow> (\<forall>c \<in> set s. P c)"
  by (induction s) auto

lemma py_strip_empty_iff: "py_strip s = [] \<longleftrightarrow> (\<forall>c \<in> set s. is_space c)"
  by (simp add: py_strip_def dropWhile_eq_Nil_conv dropWhile_all_iff)

lemma py_strip_lower_empty_iff: "py_strip (py_lower s) = [] \<longleftrightarrow> py_strip s = []"
  by (simp add: py_strip_empty_iff py_lower_def is_space_lower_char)

text \<open>
  C7: every lead that \<open>scrape_google_maps\<close> returns has a non-empty name, and every lead
  that \<open>deduplicate_leads\<close> returns has a name that is non-empty after trimming.
\<close>

theorem no_empty_names:
  "(scrape_google_maps env max_results = Some (Inr ls) \<longrightarrow> (\<forall>l \<in> set ls. lead_name l \<noteq> []))
   \<and> (\<forall>l \<in> set (deduplicate_leads L). py_strip (lead_name l) \<noteq> [])"
proof -
  have "lead_name l \<noteq> []" if "scrape_google_maps env max_results = Some (Inr ls)" "l \<in> set ls" for l
  proof -
    have "\<exists>st. run_cards env max_results = Some (Inr st) \<and> ls = leads st"
    proof (cases "run_cards env max_results")
      case None
      then show ?thesis using that(1) by (simp add: scrape_google_maps_def)
    next
      case (Some r)
      then show ?thesis using that(1) by (cases r) (auto simp: scrape_google_maps_def)
    qed
    then obtain st where st: "run_cards env max_results = Some (Inr st)" "ls = leads st"
      by blast
    then show ?thesis
      using run_cards_names_inv [OF st(1)] that(2) by (auto simp: names_inv_def)
  qed
  moreover have "py_strip (lead_name l) \<noteq> []" if "l \<in> set (deduplicate_leads L)" for l
  proof -
    have "fst (dedup_key l) \<noteq> []"
      using that dedup_loop_keys [of l "{}" L] by (simp add: deduplicate_leads_def)
    then show ?thesis
      by (simp add: dedup_key_def lead_name_def py_strip_lower_empty_iff)
  qed
  ultimately show ?thesis by blast
qed


theorem no_empty_names_witness:
  "\<exists>ls. scrape_google_maps five_env 5 = Some (Inr ls) \<and> length ls = 5
        \<and> [] \<notin> set (map lead_name ls)
        \<and> [] \<notin> set (map (\<lambda>l. py_strip (lead_name l))
                    (deduplicate_leads [[(''Business Name'', '' ''), (''Phone'', ''1'')],
                                        [(''Business Name'', ''A'')]]))"
proof -
  have "map_option (map_sum id length) (scrape_google_maps five_env 5) = Some (Inr 5)"
    by code_simp
  then obtain ls where ls: "scrape_google_maps five_env 5 = Some (Inr ls)" "length ls = 5"
    by (cases "scrape_google_maps five_env 5"; cases "the (scrape_google_maps five_env 5)") auto
  show ?thesis
    using ls no_empty_names [of five_env 5 ls
        "[[(''Business Name'', '' ''), (''Phone'', ''1'')], [(''Business Name'', ''A'')]]"]
    by auto
qed

subsection \<open>Bulk runner\<close>

lemma bulk_loop_result:
  "\<forall>(search, env) \<in> set searches. scrape_google_maps env max_results \<noteq> None
   \<Longrightarrow> bulk_loop searches max_results acc
       = Some (Inr (acc @ concat (map (\<lambda>(search, env).
                 case scrape_google_maps env max_results of
                   Some (Inr ls) \<Rightarrow> tag_leads search ls
                 | _ \<Rightarrow> []) searches)))"
proof (induction searches arbitrary: acc)
  case Nil
  show ?case by simp
next
  case (Cons a searches)
  obtain search env where a: "a = (search, env)" by (cases a)
  have rest: "\<forall>(search, env) \<in> set searches. scrape_google_maps env max_results \<noteq> None"
    using Cons.prems by simp
  from Cons.prems a obtain r where r: "scrape_google_maps env max_results = Some r"
    by auto
  show ?case
    using Cons.IH [OF rest] a r by (cases r) simp_all
qed

lemma bulk_loop_no_exception: "bulk_loop searches max_results acc \<noteq> Some (Inl e)"
proof (induction searches arbitrary: acc)
  case Nil
  show ?case by simp
next
  case (Cons a searches)
  obtain search env where a: "a = (search, env)" by (cases a)
  show ?case
  proof (cases "scrape_google_maps env max_results")
    case None
    then show ?thesis using a by simp
  next
    case (Some r)
    then show ?thesis using a Cons.IH by (cases r) simp_all
  qed
qed

text \<open>
  C9: \<open>scrape_bulk_searches\<close> never raises, whatever its runs do; and when every run of the
  batch returns or raises, it returns the leads of the runs that returned, in order and
  tagged with their search, the runs that raised contributing nothing.
\<close>

theorem bulk_continues_past_failures:
  "scrape_bulk_searches searches max_results \<noteq> Some (Inl e)
   \<and> ((\<forall>(search, env) \<in> set searches. scrape_google_maps env max_results \<noteq> None) \<longrightarrow>
        scrape_bulk_searches searches max_results
          = Some (Inr (concat (map (\<lambda>(search, env).
                case scrape_google_maps env max_results of
                  Some (Inr ls) \<Rightarrow> tag_leads search ls
                | _ \<Rightarrow> []) searches))))"
  using bulk_loop_result [of searches max_results "[]"]
    bulk_loop_no_exception [of searches max_results "[]" e]
  by (simp add: scrape_bulk_searches_def)

theorem bulk_continues_past_failures_witness:
  "\<exists>ls. scrape_bulk_searches
          [([(''keyword'', ''Bakery''), (''city'', ''Leeds''), (''country'', ''UK'')], five_env),
           ([(''keyword'', ''Cafe''), (''city'', ''York''), (''country'', ''UK'')], failing_env)] 5
        = Some (Inr ls) \<and> length ls = 5"
proof -
  have "map_option (map_sum id length) (scrape_google_maps five_env 5) = Some (Inr 5)"
    by code_simp
  then obtain ls where ls: "scrape_google_maps five_env 5 = Some (Inr ls)" "length ls = 5"
    by (cases "scrape_google_maps five_env 5"; cases "the (scrape_google_maps five_env 5)") auto
  have failing: "scrape_google_maps failing_env 5 = Some (Inl ''WebDriverException'')"
    by (simp add: scrape_google_maps_def run_cards_def failing_env_def)
  have all: "\<forall>(search, env) \<in> set
          [([(''keyword'', ''Bakery''), (''city'', ''Leeds''), (''country'', ''UK'')], five_env),
           ([(''keyword'', ''Cafe''), (''city'', ''York''), (''country'', ''UK'')], failing_env)].
        scrape_google_maps env 5 \<noteq> None"
    using ls(1) failing by simp
  show ?thesis
    using bulk_continues_past_failures
      [of "[([(''keyword'', ''Bakery''), (''city'', ''Leeds''), (''country'', ''UK'')], five_env),
            ([(''keyword'', ''Cafe''), (''city'', ''York''), (''country'', ''UK'')], failing_env)]" 5]
      all ls failing
    by (simp add: tag_leads_def)
qed

end
